theory Spec2Isabelle
  imports Complex_Main
begin

section \<open>The fingerprint store (database.py)\<close>

text \<open>
  The SQLite store has two tables. Table \<open>media\<close> holds one row per work, with an
  AUTOINCREMENT primary key and a UNIQUE \<open>file_path\<close>; table \<open>fingerprints\<close> holds the
  postings. Both tables are lists in insertion (rowid) order; \<open>media_seq\<close> is the
  AUTOINCREMENT counter of \<open>media\<close> (the largest id handed out so far).
\<close>

record media_row =
  row_id :: nat
  title :: string
  media_type :: string
  season :: "nat option"
  episode :: "nat option"
  file_path :: string
  fingerprint_count :: nat

record fingerprint_row =
  hash :: string
  time_offset :: int
  media_id :: nat

record database =
  media :: "media_row list"
  fingerprints :: "fingerprint_row list"
  media_seq :: nat

definition create_tables :: database where
  "create_tables = \<lparr>media = [], fingerprints = [], media_seq = 0\<rparr>"

text \<open>
  \<open>add_media\<close>: the INSERT raises IntegrityError when a row with the same \<open>file_path\<close>
  exists; the handler then selects the id of that row. Otherwise the row is stored under
  the next id, with the column default \<open>fingerprint_count = 0\<close>.
\<close>

definition add_media ::
  "database \<Rightarrow> string \<Rightarrow> string \<Rightarrow> string \<Rightarrow> nat option \<Rightarrow> nat option \<Rightarrow> database \<times> nat" where
  "add_media db ttl mtype path seas epi =
     (case find (\<lambda>r. file_path r = path) (media db) of
        Some r \<Rightarrow> (db, row_id r)
      | None \<Rightarrow>
          (let new_id = Suc (media_seq db) in
           (db\<lparr>media := media db @
                  [\<lparr>row_id = new_id, title = ttl, media_type = mtype, season = seas,
                    episode = epi, file_path = path, fingerprint_count = 0\<rparr>],
               media_seq := new_id\<rparr>, new_id)))"

text \<open>
  \<open>add_fingerprints\<close>: one row per \<open>(hash, time_offset)\<close> pair is appended, then the
  UPDATE sets \<open>fingerprint_count\<close> of the rows with that id to the length of the batch.
\<close>

definition add_fingerprints :: "database \<Rightarrow> nat \<Rightarrow> (string \<times> int) list \<Rightarrow> database" where
  "add_fingerprints db mid fps =
     db\<lparr>fingerprints := fingerprints db @
            map (\<lambda>(hash_val, t). \<lparr>hash = hash_val, time_offset = t, media_id = mid\<rparr>) fps,
        media := map (\<lambda>r. if row_id r = mid then r\<lparr>fingerprint_count := length fps\<rparr> else r)
                   (media db)\<rparr>"

text \<open>
  \<open>search_fingerprints\<close>: the placeholder text is one \<open>?\<close> per hash, joined by commas,
  and the SELECT returns the rows whose hash is among the query hashes. SQL leaves the
  order of the rows open; the model returns them in rowid order.
\<close>

fun join_commas :: "string list \<Rightarrow> string" where
  "join_commas [] = []"
| "join_commas [s] = s"
| "join_commas (s # t # ss) = s @ '','' @ join_commas (t # ss)"

definition placeholders :: "string list \<Rightarrow> string" where
  "placeholders query_hashes = join_commas (replicate (length query_hashes) ''?'')"

definition search_sql :: "string list \<Rightarrow> string" where
  "search_sql query_hashes =
     ''SELECT media_id, hash, time_offset FROM fingerprints WHERE hash IN ('' @
     placeholders query_hashes @ '')''"

definition search_fingerprints :: "database \<Rightarrow> string list \<Rightarrow> (nat \<times> string \<times> int) list" where
  "search_fingerprints db query_hashes =
     map (\<lambda>r. (media_id r, hash r, time_offset r))
       (filter (\<lambda>r. hash r \<in> set query_hashes) (fingerprints db))"

definition get_media_info :: "database \<Rightarrow> nat \<Rightarrow> media_row option" where
  "get_media_info db mid = find (\<lambda>r. row_id r = mid) (media db)"

text \<open>
  One iteration of the loop of \<open>build_database\<close>, after the file has been fingerprinted:
  the work is registered and its postings are stored under the id that \<open>add_media\<close>
  returned.
\<close>

definition ingest ::
  "database \<Rightarrow> string \<Rightarrow> string \<Rightarrow> string \<Rightarrow> nat option \<Rightarrow> nat option \<Rightarrow>
   (string \<times> int) list \<Rightarrow> database \<times> nat" where
  "ingest db ttl mtype path seas epi fps =
     (let (db1, mid) = add_media db ttl mtype path seas epi
      in (add_fingerprints db1 mid fps, mid))"

definition posting_rows :: "database \<Rightarrow> nat \<Rightarrow> fingerprint_row list" where
  "posting_rows db mid = filter (\<lambda>r. media_id r = mid) (fingerprints db)"

section \<open>Peak extraction and hashing (fingerprint.py)\<close>

record fingerprinter =
  sample_rate :: nat
  n_fft :: nat
  hop_length :: nat
  min_amplitude :: real
  peak_neighborhood_size :: nat
  fan_value :: nat
  time_window :: int

definition AudioFingerprinter :: "nat \<Rightarrow> fingerprinter" where
  "AudioFingerprinter sr =
     \<lparr>sample_rate = sr, n_fft = 2048, hop_length = 512, min_amplitude = 10,
      peak_neighborhood_size = 20, fan_value = 5, time_window = 200\<rparr>"

definition default_fingerprinter :: fingerprinter where
  "default_fingerprinter = AudioFingerprinter 22050"

text \<open>
  A spectrogram is a rectangular matrix of magnitudes, one row per frequency bin and one
  column per frame. Magnitudes are compared and tested against zero only, so they are
  modelled as reals.
\<close>

type_synonym spectrogram = "real list list"

definition n_rows :: "spectrogram \<Rightarrow> nat" where
  "n_rows M = length M"

definition n_cols :: "spectrogram \<Rightarrow> nat" where
  "n_cols M = (case M of [] \<Rightarrow> 0 | r # _ \<Rightarrow> length r)"

text \<open>
  \<open>iterate_structure (generate_binary_structure 2 1) n\<close> is the cross of radius 1 dilated
  with itself: the offsets \<open>(df, dt)\<close> with \<open>|df| + |dt| \<le> n\<close>; for \<open>n < 2\<close> the cross
  itself is returned.
\<close>

definition neighborhood :: "nat \<Rightarrow> (int \<times> int) list" where
  "neighborhood n =
     (let r = int (max 1 n)
      in concat (map (\<lambda>df. map (\<lambda>dt. (df, dt)) [\<bar>df\<bar> - r .. r - \<bar>df\<bar>]) [- r .. r]))"

text \<open>
  \<open>maximum_filter\<close> with the default border mode \<open>reflect\<close> reads an index outside the
  array at its mirror image about the edge (\<open>d c b a | a b c d | d c b a\<close>).
\<close>

definition reflect_index :: "nat \<Rightarrow> int \<Rightarrow> nat" where
  "reflect_index n i =
     (let m = i mod (2 * int n) in if m < int n then nat m else nat (2 * int n - 1 - m))"

definition maximum_filter_reflect ::
  "spectrogram \<Rightarrow> (int \<times> int) list \<Rightarrow> nat \<Rightarrow> nat \<Rightarrow> real" where
  "maximum_filter_reflect M footprint f t =
     Max (set (map (\<lambda>(df, dt). M ! reflect_index (n_rows M) (int f + df)
                                  ! reflect_index (n_cols M) (int t + dt)) footprint))"

text \<open>
  On the boolean mask the filter runs with \<open>mode='constant'\<close>: cells outside the array
  count as \<open>cval = 0\<close>, that is False.
\<close>

definition maximum_filter_constant ::
  "(nat \<Rightarrow> nat \<Rightarrow> bool) \<Rightarrow> nat \<Rightarrow> nat \<Rightarrow> (int \<times> int) list \<Rightarrow> nat \<Rightarrow> nat \<Rightarrow> bool" where
  "maximum_filter_constant msk rows cols footprint f t =
     list_ex (\<lambda>(df, dt). 0 \<le> int f + df \<and> int f + df < int rows \<and>
                          0 \<le> int t + dt \<and> int t + dt < int cols \<and>
                          msk (nat (int f + df)) (nat (int t + dt))) footprint"

definition local_max :: "fingerprinter \<Rightarrow> spectrogram \<Rightarrow> nat \<Rightarrow> nat \<Rightarrow> bool" where
  "local_max cfg M f t =
     (maximum_filter_reflect M (neighborhood (peak_neighborhood_size cfg)) f t = M ! f ! t)"

definition background :: "spectrogram \<Rightarrow> nat \<Rightarrow> nat \<Rightarrow> bool" where
  "background M f t = (M ! f ! t = 0)"

definition eroded_background :: "fingerprinter \<Rightarrow> spectrogram \<Rightarrow> nat \<Rightarrow> nat \<Rightarrow> bool" where
  "eroded_background cfg M f t =
     maximum_filter_constant (background M) (n_rows M) (n_cols M)
       (neighborhood (peak_neighborhood_size cfg)) f t"

definition detected_peaks :: "fingerprinter \<Rightarrow> spectrogram \<Rightarrow> nat \<Rightarrow> nat \<Rightarrow> bool" where
  "detected_peaks cfg M f t = (local_max cfg M f t \<noteq> eroded_background cfg M f t)"

text \<open>
  \<open>np.where\<close> lists the cells of the mask in row-major order, as \<open>(row, column)\<close>, that
  is \<open>(freq_bin, frame_index)\<close>; the amplitude filter keeps the rows whose magnitude is
  above \<open>min_amplitude\<close>.
\<close>

definition where_mask :: "(nat \<Rightarrow> nat \<Rightarrow> bool) \<Rightarrow> nat \<Rightarrow> nat \<Rightarrow> (nat \<times> nat) list" where
  "where_mask msk rows cols =
     concat (map (\<lambda>f. map (\<lambda>t. (f, t)) (filter (msk f) [0 ..< cols])) [0 ..< rows])"

definition find_peaks :: "fingerprinter \<Rightarrow> spectrogram \<Rightarrow> (nat \<times> nat) list" where
  "find_peaks cfg M =
     (let peaks = where_mask (detected_peaks cfg M) (n_rows M) (n_cols M);
          amps = map (\<lambda>(f, t). M ! f ! t) peaks
      in map fst (filter (\<lambda>(p, a). a > min_amplitude cfg) (zip peaks amps)))"

text \<open>
  \<open>generate_hashes\<close> first orders the peaks by their second column (the frame index), then
  pairs every anchor \<open>i\<close> with the targets \<open>j\<close> of \<open>range(i + 1, min(i + fan_value, len))\<close>
  and leaves the inner loop at the first target further away than \<open>time_window\<close>.
  A pair is kept as \<open>(freq1, freq2, time_delta, time1)\<close>; its posting is the digest of the
  text \<open>freq1|freq2|time_delta\<close> together with \<open>time1\<close>. The digest function (SHA-1 of
  hashlib, as hex text) is a parameter. Peaks of the same frame keep their order in the
  model; numpy's default sort does not promise that, and the bounds on the time delta
  below hold for every time-ordered arrangement of the peaks.
\<close>

definition sort_by_time :: "(nat \<times> nat) list \<Rightarrow> (nat \<times> nat) list" where
  "sort_by_time peaks = sort_key snd peaks"

fun pair_targets ::
  "int \<Rightarrow> nat \<times> nat \<Rightarrow> (nat \<times> nat) list \<Rightarrow> (nat \<times> nat \<times> int \<times> nat) list" where
  "pair_targets tw (freq1, time1) [] = []"
| "pair_targets tw (freq1, time1) ((freq2, time2) # rest) =
     (let time_delta = int time2 - int time1
      in if time_delta > tw then []
         else (freq1, freq2, time_delta, time1) # pair_targets tw (freq1, time1) rest)"

definition targets_of :: "fingerprinter \<Rightarrow> (nat \<times> nat) list \<Rightarrow> nat \<Rightarrow> (nat \<times> nat) list" where
  "targets_of cfg peaks i =
     map (\<lambda>j. peaks ! j) [i + 1 ..< min (i + fan_value cfg) (length peaks)]"

definition anchor_pairs ::
  "fingerprinter \<Rightarrow> (nat \<times> nat) list \<Rightarrow> nat \<Rightarrow> (nat \<times> nat \<times> int \<times> nat) list" where
  "anchor_pairs cfg peaks i = pair_targets (time_window cfg) (peaks ! i) (targets_of cfg peaks i)"

definition peak_pairs ::
  "fingerprinter \<Rightarrow> (nat \<times> nat) list \<Rightarrow> (nat \<times> nat \<times> int \<times> nat) list" where
  "peak_pairs cfg peaks = concat (map (anchor_pairs cfg peaks) [0 ..< length peaks])"

fun show_nat :: "nat \<Rightarrow> string" where
  "show_nat n =
     (if n < 10 then [''0123456789'' ! n]
      else show_nat (n div 10) @ [''0123456789'' ! (n mod 10)])"

definition show_int :: "int \<Rightarrow> string" where
  "show_int i = (if i < 0 then ''-'' @ show_nat (nat (- i)) else show_nat (nat i))"

definition hash_string :: "nat \<Rightarrow> nat \<Rightarrow> int \<Rightarrow> string" where
  "hash_string freq1 freq2 time_delta =
     show_nat freq1 @ ''|'' @ show_nat freq2 @ ''|'' @ show_int time_delta"

definition posting_of :: "(string \<Rightarrow> string) \<Rightarrow> nat \<times> nat \<times> int \<times> nat \<Rightarrow> string \<times> int" where
  "posting_of sha1 = (\<lambda>(freq1, freq2, time_delta, time1).
     (sha1 (hash_string freq1 freq2 time_delta), int time1))"

definition generate_hashes ::
  "(string \<Rightarrow> string) \<Rightarrow> fingerprinter \<Rightarrow> (nat \<times> nat) list \<Rightarrow> (string \<times> int) list" where
  "generate_hashes sha1 cfg peaks = map (posting_of sha1) (peak_pairs cfg (sort_by_time peaks))"


section \<open>Matching (matcher.py)\<close>

datatype error = ValueError | TypeError

text \<open>
  Python's \<open>max(xs, key=k)\<close> raises ValueError on an empty sequence and otherwise returns
  the first element whose key is maximal.
\<close>

fun py_max :: "('a \<Rightarrow> nat) \<Rightarrow> 'a list \<Rightarrow> error + 'a" where
  "py_max k [] = Inl ValueError"
| "py_max k (x # xs) = Inr (fold (\<lambda>y best. if k y > k best then y else best) xs x)"

text \<open>
  A \<open>defaultdict\<close> is an association list in insertion order: a new key is appended,
  an existing key keeps its place.
\<close>

definition dd_update :: "'v \<Rightarrow> ('v \<Rightarrow> 'v) \<Rightarrow> 'k \<Rightarrow> ('k \<times> 'v) list \<Rightarrow> ('k \<times> 'v) list" where
  "dd_update dflt g k d =
     (if k \<in> fst ` set d then map (\<lambda>(k', v). if k' = k then (k', g v) else (k', v)) d
      else d @ [(k, g dflt)])"

text \<open>
  \<open>round(delta / 10) * 10\<close>: Python rounds the quotient to the nearest integer, and a
  quotient half-way between two integers to the even one. The quotient of two integers
  is half-way exactly when the remainder is 5 (frame differences are far below the
  range where the float quotient loses precision).
\<close>

definition py_round_tenth :: "int \<Rightarrow> int" where
  "py_round_tenth delta =
     (let q = delta div 10; r = delta mod 10
      in if r < 5 then q else if r > 5 then q + 1 else if even q then q else q + 1)"

definition delta_bucket :: "int \<Rightarrow> int" where
  "delta_bucket delta = py_round_tenth delta * 10"

record score_entry =
  se_media_id :: nat
  score :: nat
  se_time_offset :: int
  total_deltas :: nat

definition query_dict :: "(string \<times> int) list \<Rightarrow> (string \<rightharpoonup> int)" where
  "query_dict query_fingerprints = map_of (rev query_fingerprints)"

definition add_match ::
  "(string \<rightharpoonup> int) \<Rightarrow> nat \<times> string \<times> int \<Rightarrow> (nat \<times> int list) list \<Rightarrow> (nat \<times> int list) list" where
  "add_match qd = (\<lambda>(mid, hash_val, db_time_offset) media_matches.
     (case qd hash_val of
        None \<Rightarrow> media_matches
      | Some query_time_offset \<Rightarrow>
          dd_update [] (\<lambda>l. l @ [db_time_offset - query_time_offset]) mid media_matches))"

definition media_matches ::
  "(string \<times> int) list \<Rightarrow> (nat \<times> string \<times> int) list \<Rightarrow> (nat \<times> int list) list" where
  "media_matches query_fingerprints db_matches =
     fold (add_match (query_dict query_fingerprints)) db_matches []"

definition delta_counts :: "int list \<Rightarrow> (int \<times> nat) list" where
  "delta_counts time_deltas = fold (\<lambda>delta. dd_update 0 Suc (delta_bucket delta)) time_deltas []"

definition score_media :: "nat \<times> int list \<Rightarrow> error + score_entry" where
  "score_media = (\<lambda>(mid, time_deltas).
     (case py_max snd (delta_counts time_deltas) of
        Inl e \<Rightarrow> Inl e
      | Inr (best_delta, cnt) \<Rightarrow>
          Inr \<lparr>se_media_id = mid, score = cnt, se_time_offset = best_delta,
               total_deltas = length time_deltas\<rparr>))"

fun collect :: "(error + 'a) list \<Rightarrow> error + 'a list" where
  "collect [] = Inr []"
| "collect (Inl e # _) = Inl e"
| "collect (Inr x # rest) = (case collect rest of Inl e \<Rightarrow> Inl e | Inr xs \<Rightarrow> Inr (x # xs))"

text \<open>\<open>sorted(scores, key=score, reverse=True)\<close> is stable: equal scores keep their order.\<close>

definition sort_scores :: "score_entry list \<Rightarrow> score_entry list" where
  "sort_scores scores = sort_key (\<lambda>s. - int (score s)) scores"

definition score_matches ::
  "(string \<times> int) list \<Rightarrow> (nat \<times> string \<times> int) list \<Rightarrow> error + score_entry list" where
  "score_matches query_fingerprints db_matches =
     (case collect (map score_media (media_matches query_fingerprints db_matches)) of
        Inl e \<Rightarrow> Inl e
      | Inr scores \<Rightarrow> Inr (sort_scores scores))"

record match_result =
  mr_media_id :: nat
  mr_title :: string
  mr_type :: string
  mr_season :: "nat option"
  mr_episode :: "nat option"
  confidence :: nat
  time_offset_seconds :: real
  total_matches :: nat

text \<open>
  \<open>match_clip\<close> from the query's fingerprints on. Besides its result the model returns
  the calls made to the store, in order. A missing media row makes the subscript of
  \<open>media_info\<close> raise TypeError. The offset in seconds is the exact quotient; the
  formatted time text and the printed report are left out.
\<close>

datatype db_call = Search_fingerprints "string list" | Get_media_info nat

definition match_fingerprints ::
  "fingerprinter \<Rightarrow> database \<Rightarrow> (string \<times> int) list \<Rightarrow> int \<Rightarrow>
   db_call list \<times> (error + match_result option)" where
  "match_fingerprints cfg db query_fingerprints min_confidence =
     (if query_fingerprints = [] then ([], Inr None)
      else
        let query_hashes = map fst query_fingerprints;
            matches = search_fingerprints db query_hashes;
            calls = [Search_fingerprints query_hashes]
        in if matches = [] then (calls, Inr None)
           else
             (case score_matches query_fingerprints matches of
                Inl e \<Rightarrow> (calls, Inl e)
              | Inr scores \<Rightarrow>
                  if scores = [] then (calls, Inr None)
                  else
                    (case py_max score scores of
                       Inl e \<Rightarrow> (calls, Inl e)
                     | Inr best_match \<Rightarrow>
                         if int (score best_match) < min_confidence then (calls, Inr None)
                         else
                           (case get_media_info db (se_media_id best_match) of
                              None \<Rightarrow>
                                (calls @ [Get_media_info (se_media_id best_match)], Inl TypeError)
                            | Some media_info \<Rightarrow>
                                (calls @ [Get_media_info (se_media_id best_match)],
                                 Inr (Some
                                   \<lparr>mr_media_id = se_media_id best_match,
                                    mr_title = title media_info,
                                    mr_type = media_type media_info,
                                    mr_season = season media_info,
                                    mr_episode = episode media_info,
                                    confidence = score best_match,
                                    time_offset_seconds =
                                      real_of_int (se_time_offset best_match * int (hop_length cfg))
                                        / real (sample_rate cfg),
                                    total_matches = length matches\<rparr>))))))"


section \<open>Scenarios\<close>

text \<open>
  Seed scenario 6: the same file is ingested twice, each time with the postings that its
  fingerprinting produced.
\<close>

definition ingested_once :: "database \<times> nat" where
  "ingested_once =
     ingest create_tables ''A'' ''movie'' ''data/movies/a.mp3'' None None [(''abc123'', 100)]"

definition ingested_twice :: "database \<times> nat" where
  "ingested_twice =
     ingest (fst ingested_once) ''A'' ''movie'' ''data/movies/a.mp3'' None None
       [(''abc123'', 100)]"

text \<open>The third component of a pair is its time delta.\<close>

definition pair_delta :: "nat \<times> nat \<times> int \<times> nat \<Rightarrow> int" where
  "pair_delta = (\<lambda>(freq1, freq2, time_delta, time1). time_delta)"

text \<open>Six peaks in consecutive frames, already in time order.\<close>

definition six_peaks :: "(nat \<times> nat) list" where
  "six_peaks = [(10, 0), (11, 1), (12, 2), (13, 3), (14, 4), (15, 5)]"

text \<open>
  The peak predicate in the words of the specification: the cell is strictly above every
  other cell of the spectrogram within the diamond around it, it is above the amplitude
  floor, and the filter over the is-zero mask does not match it.
\<close>

definition claimed_peak :: "fingerprinter \<Rightarrow> spectrogram \<Rightarrow> nat \<Rightarrow> nat \<Rightarrow> bool" where
  "claimed_peak cfg M f t =
     (list_all (\<lambda>f'. list_all (\<lambda>t'.
          (f', t') \<noteq> (f, t) \<and>
          \<bar>int f' - int f\<bar> + \<bar>int t' - int t\<bar> \<le> int (max 1 (peak_neighborhood_size cfg))
          \<longrightarrow> M ! f' ! t' < M ! f ! t) [0 ..< n_cols M]) [0 ..< n_rows M] \<and>
      M ! f ! t > min_amplitude cfg \<and>
      \<not> eroded_background cfg M f t)"


text \<open>Small spectrograms: a tie, a cell of silence beside two loud ones, two crossing peaks.\<close>

definition two_equal_cells :: spectrogram where
  "two_equal_cells = [[20, 20]]"

definition silence_edge :: spectrogram where
  "silence_edge = [[0, 15, 20]]"



text \<open>The elements of a list in the order of their first occurrence.\<close>

definition first_seen :: "'a list \<Rightarrow> 'a list" where
  "first_seen xs = fold (\<lambda>x ks. if x \<in> set ks then ks else ks @ [x]) xs []"

text \<open>
  Two works whose postings were stored in the order work 2, work 1; a query that matches
  five postings of each at one consistent offset; and the result of matching it.
\<close>

definition tied_catalogue :: database where
  "tied_catalogue =
     (let (db1, a) = add_media create_tables ''A'' ''movie'' ''data/movies/a.mp3'' None None;
          (db2, b) = add_media db1 ''B'' ''movie'' ''data/movies/b.mp3'' None None;
          db3 = add_fingerprints db2 b
                  [(''a1'', 100), (''a2'', 110), (''a3'', 120), (''a4'', 130), (''a5'', 140)]
      in add_fingerprints db3 a
           [(''b1'', 200), (''b2'', 210), (''b3'', 220), (''b4'', 230), (''b5'', 240)])"

definition tied_query :: "(string \<times> int) list" where
  "tied_query =
     [(''a1'', 0), (''a2'', 10), (''a3'', 20), (''a4'', 30), (''a5'', 40),
      (''b1'', 0), (''b2'', 10), (''b3'', 20), (''b4'', 30), (''b5'', 40)]"

definition tied_result :: match_result where
  "tied_result =
     \<lparr>mr_media_id = 2, mr_title = ''B'', mr_type = ''movie'', mr_season = None,
      mr_episode = None, confidence = 5,
      time_offset_seconds = real_of_int (100 * 512) / real 22050, total_matches = 10\<rparr>"

text \<open>
  The cached count of every work equals the number of its posting rows; and no id in
  either table exceeds the AUTOINCREMENT counter.
\<close>

definition count_consistent :: "database \<Rightarrow> bool" where
  "count_consistent db =
     list_all (\<lambda>r. fingerprint_count r = length (posting_rows db (row_id r))) (media db)"

definition ids_bounded :: "database \<Rightarrow> bool" where
  "ids_bounded db =
     (list_all (\<lambda>r. row_id r \<le> media_seq db) (media db) \<and>
      list_all (\<lambda>p. media_id p \<le> media_seq db) (fingerprints db))"

section \<open>Properties of the store\<close>

lemma ingested_once_eval:
  "ingested_once =
     (\<lparr>media = [\<lparr>row_id = 1, title = ''A'', media_type = ''movie'', season = None,
                 episode = None, file_path = ''data/movies/a.mp3'', fingerprint_count = 1\<rparr>],
       fingerprints = [\<lparr>hash = ''abc123'', time_offset = 100, media_id = 1\<rparr>],
       media_seq = 1\<rparr>, 1)"
  by (simp add: ingested_once_def ingest_def add_media_def add_fingerprints_def
      create_tables_def)

lemma ingested_twice_eval:
  "ingested_twice =
     (\<lparr>media = [\<lparr>row_id = 1, title = ''A'', media_type = ''movie'', season = None,
                 episode = None, file_path = ''data/movies/a.mp3'', fingerprint_count = 1\<rparr>],
       fingerprints = [\<lparr>hash = ''abc123'', time_offset = 100, media_id = 1\<rparr>,
                       \<lparr>hash = ''abc123'', time_offset = 100, media_id = 1\<rparr>],
       media_seq = 1\<rparr>, 1)"
  by (simp add: ingested_twice_def ingested_once_eval ingest_def add_media_def
      add_fingerprints_def)

text \<open>
  For a path that is already catalogued, \<open>ingest\<close> returns the id of the existing row
  and appends the whole batch to the postings table.
\<close>

lemma ingest_existing_path:
  assumes "find (\<lambda>r. file_path r = path) (media db) = Some r"
  shows "snd (ingest db ttl mtype path seas epi fps) = row_id r"
    and "fingerprints (fst (ingest db ttl mtype path seas epi fps)) =
           fingerprints db @
           map (\<lambda>(h, t). \<lparr>hash = h, time_offset = t, media_id = row_id r\<rparr>) fps"
  using assms by (simp_all add: ingest_def add_media_def add_fingerprints_def)

text \<open>
  Claim C1 (idempotent ingest). The second ingestion of \<open>data/movies/a.mp3\<close> returns the
  work id of the first one, but it inserts the posting again: the postings table grows
  from one row to two.
\<close>

theorem ingest_same_path_twice_reinserts_postings:
  "snd ingested_twice = snd ingested_once \<and>
   fingerprints (fst ingested_twice) \<noteq> fingerprints (fst ingested_once) \<and>
   length (fingerprints (fst ingested_once)) = 1 \<and>
   length (fingerprints (fst ingested_twice)) = 2"
  by (simp add: ingested_once_eval ingested_twice_eval)

text \<open>
  Claim C2 (cached posting count). After the second ingestion the only work has id 1 and
  the cached count 1, while two rows of the postings table carry its id.
\<close>

theorem posting_count_differs_from_rows_after_reingest:
  "map row_id (media (fst ingested_twice)) = [1] \<and>
   map fingerprint_count (media (fst ingested_twice)) = [1] \<and>
   length (posting_rows (fst ingested_twice) 1) = 2"
  by (simp add: ingested_twice_eval posting_rows_def)

text \<open>
  Ingesting a file whose path is not yet catalogued keeps the cached counts in step with
  the postings table; the counts go out of step only when a catalogued path is ingested
  again.
\<close>

lemma create_tables_consistent: "count_consistent create_tables \<and> ids_bounded create_tables"
  by (simp add: count_consistent_def ids_bounded_def create_tables_def)

lemma ingest_fresh_path_keeps_counts:
  assumes "find (\<lambda>r. file_path r = path) (media db) = None"
    and "count_consistent db" "ids_bounded db"
  shows "count_consistent (fst (ingest db ttl mtype path seas epi fps)) \<and>
         ids_bounded (fst (ingest db ttl mtype path seas epi fps)) \<and>
         snd (ingest db ttl mtype path seas epi fps) = Suc (media_seq db)"
proof -
  let ?n = "Suc (media_seq db)"
  let ?new = "map (\<lambda>(h, t). \<lparr>hash = h, time_offset = t, media_id = ?n\<rparr>) fps"
  let ?db = "fst (ingest db ttl mtype path seas epi fps)"
  have old_rows: "row_id r \<noteq> ?n" if "r \<in> set (media db)" for r
    using assms(3) that by (auto simp: ids_bounded_def list_all_iff)
  have old_posts: "filter (\<lambda>p. media_id p = ?n) (fingerprints db) = []"
    using assms(3) by (auto simp: ids_bounded_def list_all_iff filter_empty_conv)
  have new_all: "filter (\<lambda>p. media_id p = ?n) ?new = ?new"
    by (rule filter_True) auto
  have new_none: "filter (\<lambda>p. media_id p = m) ?new = []" if "m \<noteq> ?n" for m
    using that by (auto simp: filter_empty_conv)
  have media': "media ?db = media db @
      [\<lparr>row_id = ?n, title = ttl, media_type = mtype, season = seas, episode = epi,
        file_path = path, fingerprint_count = length fps\<rparr>]"
  proof -
    have "map (\<lambda>r. if row_id r = ?n then r\<lparr>fingerprint_count := length fps\<rparr> else r) (media db) =
            media db"
      using old_rows by (intro map_idI) simp
    then show ?thesis
      using assms(1) by (simp add: ingest_def add_media_def add_fingerprints_def Let_def)
  qed
  have fps': "fingerprints ?db = fingerprints db @ ?new"
    using assms(1) by (simp add: ingest_def add_media_def add_fingerprints_def Let_def)
  have seq': "media_seq ?db = ?n"
    using assms(1) by (simp add: ingest_def add_media_def add_fingerprints_def Let_def)
  have "count_consistent ?db"
    unfolding count_consistent_def media' list_all_iff posting_rows_def fps'
  proof
    fix r
    assume "r \<in> set (media db @
      [\<lparr>row_id = ?n, title = ttl, media_type = mtype, season = seas, episode = epi,
        file_path = path, fingerprint_count = length fps\<rparr>])"
    then consider "r \<in> set (media db)"
      | "r = \<lparr>row_id = ?n, title = ttl, media_type = mtype, season = seas, episode = epi,
              file_path = path, fingerprint_count = length fps\<rparr>"
      by auto
    then show "fingerprint_count r =
        length (filter (\<lambda>p. media_id p = row_id r) (fingerprints db @ ?new))"
    proof cases
      case 1
      then have "fingerprint_count r = length (posting_rows db (row_id r))"
        using assms(2) by (simp add: count_consistent_def list_all_iff)
      then show ?thesis
        using new_none[OF old_rows[OF 1]] by (simp add: posting_rows_def)
    next
      case 2
      then show ?thesis using old_posts new_all by simp
    qed
  qed
  moreover have "ids_bounded ?db"
    using assms(3) unfolding ids_bounded_def media' fps' seq' list_all_iff by auto
  moreover have "snd (ingest db ttl mtype path seas epi fps) = ?n"
    using assms(1) by (simp add: ingest_def add_media_def Let_def)
  ultimately show ?thesis by simp
qed

section \<open>Properties of the hasher\<close>

text \<open>The targets of anchor \<open>i\<close> are the next \<open>fan_value - 1\<close> peaks.\<close>

lemma targets_of_take_drop:
  "targets_of cfg peaks i = take (fan_value cfg - 1) (drop (i + 1) peaks)"
proof (rule nth_equalityI)
  show "length (targets_of cfg peaks i) = length (take (fan_value cfg - 1) (drop (i + 1) peaks))"
    by (auto simp: targets_of_def)
next
  fix k assume "k < length (targets_of cfg peaks i)"
  then have lt: "k < min (i + fan_value cfg) (length peaks) - Suc i"
    by (simp add: targets_of_def)
  then have k: "Suc i + k < min (i + fan_value cfg) (length peaks)"
    by arith
  have "targets_of cfg peaks i ! k =
          peaks ! ([Suc i ..< min (i + fan_value cfg) (length peaks)] ! k)"
    using lt by (simp add: targets_of_def)
  also have "\<dots> = peaks ! (Suc i + k)"
    using nth_upt[OF k] by simp
  also have "\<dots> = take (fan_value cfg - 1) (drop (i + 1) peaks) ! k"
  proof -
    have "k < fan_value cfg - 1" "Suc i + k \<le> length peaks"
      using k by arith+
    then show ?thesis by (simp add: nth_take nth_drop)
  qed
  finally show "targets_of cfg peaks i ! k = take (fan_value cfg - 1) (drop (i + 1) peaks) ! k" .
qed

lemma length_targets_of: "length (targets_of cfg peaks i) \<le> fan_value cfg - 1"
  by (simp add: targets_of_take_drop)

lemma sort_by_time_six: "sort_by_time six_peaks = six_peaks"
  by (simp add: sort_by_time_def six_peaks_def)

text \<open>
  Claim C3 (fan-out). With the default \<open>fan_value = 5\<close> the anchor at index 0 of six
  time-ordered peaks is paired with the peaks at indices 1 to 4 only. The peak at index 5
  lies in the range \<open>(0, 0 + fan_value]\<close> and within the time window, yet it is not a
  target: the inner range ends at \<open>i + fan_value\<close> exclusively.
\<close>

theorem fan_out_pairs_four_targets:
  "sort_by_time six_peaks = six_peaks \<and>
   targets_of default_fingerprinter six_peaks 0 = [(11, 1), (12, 2), (13, 3), (14, 4)] \<and>
   anchor_pairs default_fingerprinter six_peaks 0 =
     [(10, 11, 1, 0), (10, 12, 2, 0), (10, 13, 3, 0), (10, 14, 4, 0)] \<and>
   six_peaks ! 5 = (15, 5) \<and> int (snd (six_peaks ! 5)) - int (snd (six_peaks ! 0)) \<le> time_window default_fingerprinter"
  by (simp add: sort_by_time_six anchor_pairs_def targets_of_take_drop) (simp add: six_peaks_def default_fingerprinter_def AudioFingerprinter_def)


lemma pair_targets_takeWhile:
  "pair_targets tw a ts =
     map (\<lambda>(freq2, time2). (fst a, freq2, int time2 - int (snd a), snd a))
       (takeWhile (\<lambda>(freq2, time2). int time2 - int (snd a) \<le> tw) ts)"
proof (induction ts)
  case Nil show ?case by (cases a) simp
next
  case (Cons p ts) then show ?case by (cases a; cases p) (simp add: Let_def)
qed

lemma sorted_sort_by_time: "sorted (map snd (sort_by_time peaks))"
  by (simp add: sort_by_time_def)

lemma targets_not_earlier:
  assumes "sorted (map snd ps)" "i < length ps" "p \<in> set (targets_of cfg ps i)"
  shows "snd (ps ! i) \<le> snd p"
proof -
  from assms(3) have "\<exists>j. i < j \<and> j < length ps \<and> p = ps ! j"
    by (auto simp: targets_of_def Suc_le_eq)
  then obtain j where j: "i < j" "j < length ps" "p = ps ! j"
    by blast
  have "map snd ps ! i \<le> map snd ps ! j"
    using assms(1) j by (intro sorted_nth_mono) auto
  then show ?thesis using j assms(2) by simp
qed

lemma peak_pairs_delta_bounds:
  assumes "sorted (map snd ps)" "p \<in> set (peak_pairs cfg ps)"
  shows "0 \<le> pair_delta p \<and> pair_delta p \<le> time_window cfg"
proof -
  from assms(2) obtain i where i: "i < length ps" "p \<in> set (anchor_pairs cfg ps i)"
    by (auto simp: peak_pairs_def)
  then obtain q where q: "q \<in> set (targets_of cfg ps i)"
      "int (snd q) - int (snd (ps ! i)) \<le> time_window cfg"
      "p = (fst (ps ! i), fst q, int (snd q) - int (snd (ps ! i)), snd (ps ! i))"
    by (auto simp: anchor_pairs_def pair_targets_takeWhile dest!: set_takeWhileD)
  have "snd (ps ! i) \<le> snd q" using targets_not_earlier[OF assms(1) i(1) q(1)] .
  then show ?thesis using q by (simp add: pair_delta_def)
qed

text \<open>
  Claim C8 (time delta of a posting). The postings are the images of the pairs formed on
  the time-ordered peaks; every pair has a time delta between 0 and \<open>time_window\<close>;
  and for each anchor the pairs are formed with the targets up to, and excluding, the
  first one whose time delta exceeds \<open>time_window\<close>.
\<close>

theorem hasher_time_delta_bounds:
  "generate_hashes sha1 cfg peaks = map (posting_of sha1) (peak_pairs cfg (sort_by_time peaks)) \<and>
   (\<forall>p \<in> set (peak_pairs cfg (sort_by_time peaks)).
      0 \<le> pair_delta p \<and> pair_delta p \<le> time_window cfg) \<and>
   (\<forall>i. anchor_pairs cfg (sort_by_time peaks) i =
      map (\<lambda>(freq2, time2). (fst (sort_by_time peaks ! i), freq2,
                              int time2 - int (snd (sort_by_time peaks ! i)),
                              snd (sort_by_time peaks ! i)))
        (takeWhile (\<lambda>(freq2, time2).
             int time2 - int (snd (sort_by_time peaks ! i)) \<le> time_window cfg)
           (targets_of cfg (sort_by_time peaks) i)))"
  using peak_pairs_delta_bounds[OF sorted_sort_by_time]
  by (simp add: generate_hashes_def anchor_pairs_def pair_targets_takeWhile)

lemma three_peaks_pairs:
  "peak_pairs default_fingerprinter (sort_by_time [(30, 300), (10, 0), (20, 5)]) = [(10, 20, 5, 0)]"
  by (simp add: peak_pairs_def anchor_pairs_def targets_of_take_drop sort_by_time_def
      default_fingerprinter_def AudioFingerprinter_def upt_conv_Cons)

theorem hasher_time_delta_bounds_witness:
  "peak_pairs default_fingerprinter (sort_by_time [(30, 300), (10, 0), (20, 5)]) = [(10, 20, 5, 0)] \<and>
   0 \<le> pair_delta (10, 20, 5, 0) \<and>
   pair_delta (10, 20, 5, 0) \<le> time_window default_fingerprinter"
  using hasher_time_delta_bounds[of id default_fingerprinter "[(30, 300), (10, 0), (20, 5)]"]
  by (simp add: three_peaks_pairs)

section \<open>Properties of the peak extractor\<close>

lemma neighborhood_iff:
  "(df, dt) \<in> set (neighborhood n) \<longleftrightarrow> \<bar>df\<bar> + \<bar>dt\<bar> \<le> int (max 1 n)"
proof -
  let ?r = "int (max 1 n)"
  have "(df, dt) \<in> set (neighborhood n) \<longleftrightarrow>
          - ?r \<le> df \<and> df \<le> ?r \<and> \<bar>df\<bar> - ?r \<le> dt \<and> dt \<le> ?r - \<bar>df\<bar>"
    by (auto simp: neighborhood_def Let_def image_iff)
  also have "\<dots> \<longleftrightarrow> \<bar>df\<bar> + \<bar>dt\<bar> \<le> ?r"
    by linarith
  finally show ?thesis .
qed

lemma reflect_index_less: "0 < n \<Longrightarrow> reflect_index n i < n"
proof -
  assume n: "0 < n"
  have "0 \<le> i mod (2 * int n)" "i mod (2 * int n) < 2 * int n"
    using n by simp_all
  then show ?thesis
    by (auto simp: reflect_index_def Let_def)
qed

lemma reflect_index_inside: "0 \<le> i \<Longrightarrow> i < int n \<Longrightarrow> reflect_index n i = nat i"
  by (simp add: reflect_index_def Let_def)

lemma local_max_iff:
  assumes "f < n_rows M" "t < n_cols M"
  shows "local_max cfg M f t \<longleftrightarrow>
     (\<forall>df dt. \<bar>df\<bar> + \<bar>dt\<bar> \<le> int (max 1 (peak_neighborhood_size cfg)) \<longrightarrow>
        M ! reflect_index (n_rows M) (int f + df) ! reflect_index (n_cols M) (int t + dt)
          \<le> M ! f ! t)"
proof -
  let ?nb = "neighborhood (peak_neighborhood_size cfg)"
  let ?v = "\<lambda>(df, dt). M ! reflect_index (n_rows M) (int f + df)
                              ! reflect_index (n_cols M) (int t + dt)"
  let ?S = "set (map ?v ?nb)"
  have zero: "(0, 0) \<in> set ?nb" by (simp add: neighborhood_iff)
  have "?v (0, 0) = M ! f ! t"
    using assms by (simp add: reflect_index_inside)
  then have mem: "M ! f ! t \<in> ?S"
    using zero by (metis (no_types, lifting) image_eqI set_map)
  have fin: "finite ?S" "?S \<noteq> {}" using mem by auto
  have "local_max cfg M f t \<longleftrightarrow> Max ?S = M ! f ! t"
    by (simp add: local_max_def maximum_filter_reflect_def)
  also have "\<dots> \<longleftrightarrow> (\<forall>a \<in> ?S. a \<le> M ! f ! t)"
    using Max_eq_iff[OF fin] mem by blast
  also have "\<dots> \<longleftrightarrow> (\<forall>df dt. (df, dt) \<in> set ?nb \<longrightarrow> ?v (df, dt) \<le> M ! f ! t)"
    by auto
  finally show ?thesis by (simp add: neighborhood_iff)
qed

lemma eroded_background_iff:
  "eroded_background cfg M f t \<longleftrightarrow>
     (\<exists>f' t'. f' < n_rows M \<and> t' < n_cols M \<and>
        \<bar>int f' - int f\<bar> + \<bar>int t' - int t\<bar> \<le> int (max 1 (peak_neighborhood_size cfg)) \<and>
        M ! f' ! t' = 0)"
proof
  assume "eroded_background cfg M f t"
  then obtain df dt where d: "\<bar>df\<bar> + \<bar>dt\<bar> \<le> int (max 1 (peak_neighborhood_size cfg))"
      "0 \<le> int f + df" "int f + df < int (n_rows M)"
      "0 \<le> int t + dt" "int t + dt < int (n_cols M)"
      "M ! nat (int f + df) ! nat (int t + dt) = 0"
    by (auto simp: eroded_background_def maximum_filter_constant_def list_ex_iff
        neighborhood_iff background_def)
  show "\<exists>f' t'. f' < n_rows M \<and> t' < n_cols M \<and>
        \<bar>int f' - int f\<bar> + \<bar>int t' - int t\<bar> \<le> int (max 1 (peak_neighborhood_size cfg)) \<and>
        M ! f' ! t' = 0"
    using d by (intro exI[of _ "nat (int f + df)"] exI[of _ "nat (int t + dt)"]) auto
next
  assume "\<exists>f' t'. f' < n_rows M \<and> t' < n_cols M \<and>
        \<bar>int f' - int f\<bar> + \<bar>int t' - int t\<bar> \<le> int (max 1 (peak_neighborhood_size cfg)) \<and>
        M ! f' ! t' = 0"
  then obtain f' t' where c: "f' < n_rows M" "t' < n_cols M"
      "\<bar>int f' - int f\<bar> + \<bar>int t' - int t\<bar> \<le> int (max 1 (peak_neighborhood_size cfg))"
      "M ! f' ! t' = 0"
    by blast
  have "(int f' - int f, int t' - int t) \<in> set (neighborhood (peak_neighborhood_size cfg))"
    using c(3) by (simp add: neighborhood_iff)
  then show "eroded_background cfg M f t"
    unfolding eroded_background_def maximum_filter_constant_def list_ex_iff
    using c by (intro bexI[of _ "(int f' - int f, int t' - int t)"]) (auto simp: background_def)
qed

lemma where_mask_iff:
  "(f, t) \<in> set (where_mask msk rows cols) \<longleftrightarrow> f < rows \<and> t < cols \<and> msk f t"
  by (auto simp: where_mask_def)

lemma filter_zip_map:
  "map fst (filter (\<lambda>(p, a). P a) (zip xs (map g xs))) = filter (\<lambda>p. P (g p)) xs"
  by (induction xs) auto

lemma find_peaks_filter:
  "find_peaks cfg M =
     filter (\<lambda>(f, t). M ! f ! t > min_amplitude cfg)
       (where_mask (detected_peaks cfg M) (n_rows M) (n_cols M))"
proof -
  have "(\<lambda>p. min_amplitude cfg < (case p of (f, t) \<Rightarrow> M ! f ! t)) =
          (\<lambda>(f, t). min_amplitude cfg < M ! f ! t)"
    by auto
  then show ?thesis
    by (simp add: find_peaks_def Let_def filter_zip_map[where P = "\<lambda>a. a > min_amplitude cfg"])
qed

lemma find_peaks_iff:
  "(f, t) \<in> set (find_peaks cfg M) \<longleftrightarrow>
     f < n_rows M \<and> t < n_cols M \<and> detected_peaks cfg M f t \<and> M ! f ! t > min_amplitude cfg"
  by (auto simp: find_peaks_filter where_mask_iff)

lemma global_max_is_local_max:
  assumes "f < n_rows M" "t < n_cols M"
    and "\<forall>i < n_rows M. \<forall>j < n_cols M. M ! i ! j \<le> M ! f ! t"
  shows "local_max cfg M f t"
proof -
  have "reflect_index (n_rows M) i < n_rows M" "reflect_index (n_cols M) j < n_cols M" for i j
    using assms(1,2) by (simp_all add: reflect_index_less)
  then show ?thesis
    unfolding local_max_iff[OF assms(1,2)] using assms(3) by blast
qed

lemma larger_neighbour_not_local_max:
  assumes "f < n_rows M" "t < n_cols M" "f' < n_rows M" "t' < n_cols M"
    and "\<bar>int f' - int f\<bar> + \<bar>int t' - int t\<bar> \<le> int (max 1 (peak_neighborhood_size cfg))"
    and "M ! f ! t < M ! f' ! t'"
  shows "\<not> local_max cfg M f t"
proof
  assume "local_max cfg M f t"
  then have "M ! reflect_index (n_rows M) (int f + (int f' - int f))
               ! reflect_index (n_cols M) (int t + (int t' - int t)) \<le> M ! f ! t"
    unfolding local_max_iff[OF assms(1,2)] using assms(5) by blast
  then have "M ! f' ! t' \<le> M ! f ! t"
    using assms(3,4) by (simp add: reflect_index_inside)
  then show False using assms(6) by simp
qed

lemma no_zero_not_eroded:
  assumes "\<forall>i < n_rows M. \<forall>j < n_cols M. M ! i ! j \<noteq> 0"
  shows "\<not> eroded_background cfg M f t"
  using assms by (auto simp: eroded_background_iff)

lemma two_equal_cells_shape: "n_rows two_equal_cells = 1" "n_cols two_equal_cells = 2"
  by (simp_all add: two_equal_cells_def n_rows_def n_cols_def)

lemma two_equal_cells_values:
  "i < 1 \<Longrightarrow> j < 2 \<Longrightarrow> two_equal_cells ! i ! j = 20"
  by (auto simp: two_equal_cells_def less_Suc_eq numeral_2_eq_2)

lemma find_peaks_two_equal_cells:
  "find_peaks default_fingerprinter two_equal_cells = [(0, 0), (0, 1)]"
proof -
  have lm: "local_max default_fingerprinter two_equal_cells 0 t" if "t < 2" for t
    using that by (intro global_max_is_local_max) (simp_all add: two_equal_cells_shape two_equal_cells_values)
  have eb: "\<not> eroded_background default_fingerprinter two_equal_cells f t" for f t
    by (intro no_zero_not_eroded) (simp add: two_equal_cells_shape two_equal_cells_values)
  have det: "detected_peaks default_fingerprinter two_equal_cells 0 t" if "t < 2" for t
    using lm[OF that] eb by (simp add: detected_peaks_def)
  have "filter (detected_peaks default_fingerprinter two_equal_cells 0) [0 ..< 2] = [0 ..< 2]"
    using det by (intro filter_True) auto
  then have "where_mask (detected_peaks default_fingerprinter two_equal_cells) 1 2 = [(0, 0), (0, 1)]"
    by (simp add: where_mask_def upt_conv_Cons)
  then show ?thesis
    by (simp add: find_peaks_filter two_equal_cells_shape)
       (simp add: two_equal_cells_def default_fingerprinter_def AudioFingerprinter_def)
qed

lemma claimed_peak_two_equal_cells: "\<not> claimed_peak default_fingerprinter two_equal_cells 0 0"
  by (simp add: claimed_peak_def two_equal_cells_shape upt_conv_Cons)
     (simp add: two_equal_cells_def)

text \<open>
  The test for a local maximum is an equality with the filtered maximum, so of two equal
  cells in one footprint both are reported, although neither is strictly above the other.
\<close>

lemma find_peaks_reports_tied_maximum:
  "(0, 0) \<in> set (find_peaks default_fingerprinter two_equal_cells) \<and>
   \<not> claimed_peak default_fingerprinter two_equal_cells 0 0"
  using claimed_peak_two_equal_cells by (simp add: find_peaks_two_equal_cells)

text \<open>
  Where the filter over the is-zero mask does not match, the reported cells are the
  maxima (ties allowed) of their diamond of radius 20 that exceed the amplitude floor 10.
\<close>

lemma find_peaks_away_from_silence:
  assumes "f < n_rows M" "t < n_cols M"
    and "\<not> eroded_background default_fingerprinter M f t"
  shows "(f, t) \<in> set (find_peaks default_fingerprinter M) \<longleftrightarrow>
     (\<forall>df dt. \<bar>df\<bar> + \<bar>dt\<bar> \<le> 20 \<longrightarrow>
        M ! reflect_index (n_rows M) (int f + df) ! reflect_index (n_cols M) (int t + dt)
          \<le> M ! f ! t) \<and>
     M ! f ! t > 10"
proof -
  have "peak_neighborhood_size default_fingerprinter = 20"
       "min_amplitude default_fingerprinter = 10"
    by (simp_all add: default_fingerprinter_def AudioFingerprinter_def)
  then show ?thesis
    using assms local_max_iff[OF assms(1,2), of default_fingerprinter]
    by (simp add: find_peaks_iff detected_peaks_def)
qed

text \<open>
  Where that filter does match, the reported cells are those above the floor that are
  \<^emph>\<open>not\<close> maxima of their diamond: the two masks are combined by inequality.
\<close>

lemma find_peaks_beside_silence:
  assumes "f < n_rows M" "t < n_cols M"
    and "eroded_background cfg M f t"
  shows "(f, t) \<in> set (find_peaks cfg M) \<longleftrightarrow>
     \<not> local_max cfg M f t \<and> M ! f ! t > min_amplitude cfg"
  using assms by (simp add: find_peaks_iff detected_peaks_def)











lemma silence_edge_shape: "n_rows silence_edge = 1" "n_cols silence_edge = 3"
  by (simp_all add: silence_edge_def n_rows_def n_cols_def)

lemma silence_edge_values:
  "silence_edge ! 0 ! 0 = 0" "silence_edge ! 0 ! 1 = 15" "silence_edge ! 0 ! 2 = 20"
  "silence_edge ! 0 ! Suc 0 = 15"
  by (simp_all add: silence_edge_def)

lemma silence_edge_range:
  assumes "i < 1" "j < 3"
  shows "silence_edge ! i ! j \<le> 20"
  using assms by (auto simp: silence_edge_def less_Suc_eq numeral_3_eq_3)

lemma silence_edge_masks:
  "eroded_background default_fingerprinter silence_edge 0 0"
  "eroded_background default_fingerprinter silence_edge 0 1"
  "eroded_background default_fingerprinter silence_edge 0 2"
  "\<not> local_max default_fingerprinter silence_edge 0 0"
  "\<not> local_max default_fingerprinter silence_edge 0 1"
  "local_max default_fingerprinter silence_edge 0 2"
proof -
  let ?cfg = default_fingerprinter
  have r: "peak_neighborhood_size ?cfg = 20"
    by (simp add: default_fingerprinter_def AudioFingerprinter_def)
  have eb: "eroded_background ?cfg silence_edge 0 t" if "t < 3" for t
    unfolding eroded_background_iff
    using that by (intro exI[of _ 0]) (simp add: silence_edge_shape silence_edge_values r)
  show "eroded_background ?cfg silence_edge 0 0" "eroded_background ?cfg silence_edge 0 1"
    "eroded_background ?cfg silence_edge 0 2"
    by (simp_all add: eb)
  show "local_max ?cfg silence_edge 0 2"
    by (intro global_max_is_local_max)
       (simp_all add: silence_edge_shape silence_edge_values silence_edge_range)
  show "\<not> local_max ?cfg silence_edge 0 0"
    by (rule larger_neighbour_not_local_max[where f' = 0 and t' = 1])
       (simp_all add: silence_edge_shape silence_edge_values r)
  show "\<not> local_max ?cfg silence_edge 0 1"
    by (rule larger_neighbour_not_local_max[where f' = 0 and t' = 2])
       (simp_all add: silence_edge_shape silence_edge_values r)
qed

lemma find_peaks_silence_edge:
  "find_peaks default_fingerprinter silence_edge = [(0, 1)]"
proof -
  let ?cfg = default_fingerprinter
  have det:
    "detected_peaks ?cfg silence_edge 0 0" "detected_peaks ?cfg silence_edge 0 1"
    "\<not> detected_peaks ?cfg silence_edge 0 2"
    using silence_edge_masks by (simp_all add: detected_peaks_def)
  have "[0 ..< 3] = [0, 1, 2::nat]" by (simp add: upt_conv_Cons)
  then have "where_mask (detected_peaks ?cfg silence_edge) 1 3 = [(0, 0), (0, 1)]"
    using det by (simp add: where_mask_def)
  then show ?thesis
    by (simp add: find_peaks_filter silence_edge_shape silence_edge_values)
       (simp add: default_fingerprinter_def AudioFingerprinter_def)
qed

lemma claimed_peak_silence_edge:
  "\<not> claimed_peak default_fingerprinter silence_edge 0 1"
  using silence_edge_masks(2) by (simp add: claimed_peak_def)

text \<open>
  Claim C4 (peak predicate). On the spectrogram \<open>[[0, 15, 20]]\<close> the only cell that
  \<open>find_peaks\<close> reports is \<open>(0, 1)\<close>. Its neighbour \<open>(0, 2)\<close> is larger, so it is no
  maximum of its footprint, strict or not, and the filter over the is-zero mask matches
  it: the claim excludes it on both counts. The masks \<open>local_max\<close> and
  \<open>eroded_background\<close> are combined by inequality, which next to a cell of exact silence
  selects the cells that are not local maxima.
\<close>

theorem find_peaks_reports_non_maximum_beside_silence:
  "find_peaks default_fingerprinter silence_edge = [(0, 1)] \<and>
   silence_edge ! 0 ! 1 < silence_edge ! 0 ! 2 \<and>
   \<not> local_max default_fingerprinter silence_edge 0 1 \<and>
   eroded_background default_fingerprinter silence_edge 0 1"
  using silence_edge_masks(2,5) by (simp add: find_peaks_silence_edge silence_edge_values)

section \<open>Properties of the matcher\<close>

lemma fold_max_first:
  fixes k :: "'a \<Rightarrow> nat"
  shows "\<exists>pre post. x # xs = pre @ fold (\<lambda>y best. if k y > k best then y else best) xs x # post \<and>
     (\<forall>y \<in> set pre. k y < k (fold (\<lambda>y best. if k y > k best then y else best) xs x)) \<and>
     (\<forall>y \<in> set post. k y \<le> k (fold (\<lambda>y best. if k y > k best then y else best) xs x))"
proof (induction xs rule: rev_induct)
  case Nil
  have "[x] = [] @ x # []" by simp
  then show ?case by force
next
  case (snoc z zs)
  let ?f = "\<lambda>y best. if k y > k best then y else best"
  let ?b = "fold ?f zs x"
  from snoc obtain pre post where d: "x # zs = pre @ ?b # post"
      "\<forall>y \<in> set pre. k y < k ?b" "\<forall>y \<in> set post. k y \<le> k ?b"
    by blast
  show ?case
  proof (cases "k z > k ?b")
    case True
    then have eq: "fold ?f (zs @ [z]) x = z" by simp
    have all: "\<forall>y \<in> set (x # zs). k y < k z"
    proof
      fix y assume "y \<in> set (x # zs)"
      then have "y \<in> set pre \<or> y = ?b \<or> y \<in> set post"
        unfolding d(1) by auto
      then have "k y \<le> k ?b" using d(2,3) by (auto simp: less_imp_le)
      then show "k y < k z" using True by simp
    qed
    show ?thesis
      unfolding eq
      by (rule exI[of _ "x # zs"], rule exI[of _ "[]"]) (use all in simp)
  next
    case False
    then have eq: "fold ?f (zs @ [z]) x = ?b" by simp
    have "x # zs @ [z] = pre @ ?b # (post @ [z])" using d(1) by simp
    moreover have "\<forall>y \<in> set (post @ [z]). k y \<le> k ?b" using d(3) False by auto
    ultimately show ?thesis
      unfolding eq
      by (intro exI[of _ pre] exI[of _ "post @ [z]"]) (use d(2) in blast)
  qed
qed

lemma py_max_first:
  assumes "py_max k xs = Inr b"
  shows "\<exists>pre post. xs = pre @ b # post \<and> (\<forall>y \<in> set pre. k y < k b) \<and>
           (\<forall>y \<in> set post. k y \<le> k b)"
proof (cases xs)
  case Nil
  with assms show ?thesis by simp
next
  case (Cons x xs')
  with assms have "b = fold (\<lambda>y best. if k y > k best then y else best) xs' x" by simp
  then show ?thesis using fold_max_first[of x xs' k] Cons by simp
qed

lemma py_max_member:
  assumes "py_max k xs = Inr b"
  shows "b \<in> set xs" and "\<forall>y \<in> set xs. k y \<le> k b"
proof -
  from py_max_first[OF assms] obtain pre post where d: "xs = pre @ b # post"
      "\<forall>y \<in> set pre. k y < k b" "\<forall>y \<in> set post. k y \<le> k b"
    by blast
  show "b \<in> set xs" using d(1) by simp
  show "\<forall>y \<in> set xs. k y \<le> k b" unfolding d(1) using d(2,3) by (auto simp: less_imp_le)
qed

lemma py_max_nonempty: "xs \<noteq> [] \<Longrightarrow> \<exists>b. py_max k xs = Inr b"
  by (cases xs) simp_all

lemma dd_update_nonempty: "dd_update dflt g k d \<noteq> []"
  by (auto simp: dd_update_def)

lemma dd_update_keys:
  "map fst (dd_update dflt g k d) =
     (if k \<in> set (map fst d) then map fst d else map fst d @ [k])"
proof -
  have "map fst (map (\<lambda>(k', v). if k' = k then (k', g v) else (k', v)) d) = map fst d"
    by (induction d) auto
  then show ?thesis by (auto simp: dd_update_def)
qed

lemma delta_counts_nonempty:
  assumes "time_deltas \<noteq> []"
  shows "delta_counts time_deltas \<noteq> []"
proof -
  from assms obtain ds d where "time_deltas = ds @ [d]"
    by (metis rev_exhaust)
  then show ?thesis by (simp add: delta_counts_def dd_update_nonempty)
qed

lemma score_media_Inr:
  assumes "time_deltas \<noteq> []"
  shows "\<exists>e. score_media (mid, time_deltas) = Inr e \<and> se_media_id e = mid"
proof -
  obtain b where "py_max snd (delta_counts time_deltas) = Inr b"
    using py_max_nonempty[OF delta_counts_nonempty[OF assms]] by blast
  then show ?thesis by (cases b) (simp add: score_media_def)
qed

lemma add_match_values_nonempty:
  assumes "\<forall>g \<in> set acc. snd g \<noteq> []"
  shows "\<forall>g \<in> set (add_match qd row acc). snd g \<noteq> []"
proof (cases row)
  case (fields mid h dbt)
  show ?thesis
  proof (cases "qd h")
    case None
    with fields assms show ?thesis by (simp add: add_match_def)
  next
    case (Some qt)
    then have "add_match qd row acc = dd_update [] (\<lambda>l. l @ [dbt - qt]) mid acc"
      using fields by (simp add: add_match_def)
    then show ?thesis using assms by (fastforce simp: dd_update_def split: if_splits)
  qed
qed

lemma fold_add_match_values_nonempty:
  "\<forall>g \<in> set acc. snd g \<noteq> [] \<Longrightarrow> \<forall>g \<in> set (fold (add_match qd) rows acc). snd g \<noteq> []"
proof (induction rows arbitrary: acc)
  case Nil
  then show ?case by simp
next
  case (Cons row rows)
  show ?case
    using Cons.IH[OF add_match_values_nonempty[OF Cons.prems]] by simp
qed

lemma media_matches_values_nonempty:
  "\<forall>g \<in> set (media_matches qf rows). snd g \<noteq> []"
  unfolding media_matches_def by (rule fold_add_match_values_nonempty) simp

lemma collect_map_Inr: "collect (map Inr ys) = Inr ys"
  by (induction ys) simp_all

lemma score_matches_eq:
  "score_matches qf rows =
     Inr (sort_scores (map (projr \<circ> score_media) (media_matches qf rows)))"
proof -
  have "score_media g = Inr (projr (score_media g))" if "g \<in> set (media_matches qf rows)" for g
  proof -
    have "snd g \<noteq> []" using media_matches_values_nonempty that by blast
    then obtain e where "score_media (fst g, snd g) = Inr e"
      using score_media_Inr by blast
    then show ?thesis by simp
  qed
  then have "map score_media (media_matches qf rows) =
               map Inr (map (projr \<circ> score_media) (media_matches qf rows))"
    by simp
  then show ?thesis
    by (simp add: score_matches_def collect_map_Inr del: map_map)
qed

lemma score_matches_total: "\<exists>scores. score_matches qf rows = Inr scores"
  by (simp add: score_matches_eq)

text \<open>
  Claim C7 (threshold gate). \<open>score_matches\<close> always returns a score list
  (\<open>score_matches_total\<close>); when every score in it, and so the best one, is below
  \<open>min_confidence\<close>, the match returns None.
\<close>

theorem threshold_gate:
  assumes "score_matches query_fingerprints
             (search_fingerprints db (map fst query_fingerprints)) = Inr scores"
    and "\<forall>s \<in> set scores. int (score s) < min_confidence"
  shows "snd (match_fingerprints cfg db query_fingerprints min_confidence) = Inr None"
proof (cases "scores = []")
  case True
  with assms(1) show ?thesis by (simp add: match_fingerprints_def Let_def)
next
  case False
  then obtain best where best: "py_max score scores = Inr best"
    using py_max_nonempty by blast
  then have "int (score best) < min_confidence"
    using py_max_member(1)[OF best] assms(2) by blast
  then show ?thesis
    using assms(1) best False by (simp add: match_fingerprints_def Let_def)
qed

lemma search_ingested_once:
  "search_fingerprints (fst ingested_once) [''abc123''] = [(1, ''abc123'', 100)]"
  by (simp add: ingested_once_eval search_fingerprints_def)

lemma score_ingested_once:
  "score_matches [(''abc123'', 0)] [(1, ''abc123'', 100)] =
     Inr [\<lparr>se_media_id = 1, score = 1, se_time_offset = 100, total_deltas = 1\<rparr>]"
  by code_simp

theorem threshold_gate_witness:
  "score_matches [(''abc123'', 0)] (search_fingerprints (fst ingested_once) [''abc123'']) =
     Inr [\<lparr>se_media_id = 1, score = 1, se_time_offset = 100, total_deltas = 1\<rparr>] \<and>
   snd (match_fingerprints default_fingerprinter (fst ingested_once) [(''abc123'', 0)] 5) =
     Inr None"
proof -
  have h: "score_matches [(''abc123'', 0)]
             (search_fingerprints (fst ingested_once) (map fst [(''abc123'', 0::int)])) =
           Inr [\<lparr>se_media_id = 1, score = 1, se_time_offset = 100, total_deltas = 1\<rparr>]"
    using score_ingested_once by (simp add: search_ingested_once)
  have b: "\<forall>s \<in> set [\<lparr>se_media_id = 1, score = 1, se_time_offset = 100, total_deltas = 1\<rparr>].
             int (score s) < 5"
    by simp
  show ?thesis
    using threshold_gate[OF h b, of default_fingerprinter] h by simp
qed






lemma placeholders_empty: "placeholders [] = []"
  by (simp add: placeholders_def)


text \<open>For an empty list of hashes the query text would read \<open>IN ()\<close>.\<close>

lemma search_sql_empty:
  "search_sql [] = ''SELECT media_id, hash, time_offset FROM fingerprints WHERE hash IN ()''"
  by (simp add: search_sql_def placeholders_def)



lemma first_seen_snoc:
  "first_seen (xs @ [x]) =
     (if x \<in> set (first_seen xs) then first_seen xs else first_seen xs @ [x])"
  by (simp add: first_seen_def)

lemma set_first_seen: "set (first_seen xs) = set xs"
  by (induction xs rule: rev_induct) (auto simp: first_seen_snoc first_seen_def)

lemma first_seen_order:
  assumes "first_seen xs = A @ a # B" "b \<in> set B"
  shows "b \<notin> set (takeWhile (\<lambda>m. m \<noteq> a) xs)"
  using assms
proof (induction xs arbitrary: A B rule: rev_induct)
  case Nil
  then show ?case by (simp add: first_seen_def)
next
  case (snoc x xs)
  show ?case
  proof (cases "x \<in> set (first_seen xs)")
    case True
    then have fs: "first_seen xs = A @ a # B"
      using snoc.prems(1) by (simp add: first_seen_snoc)
    then have "a \<in> set xs" using set_first_seen[of xs] by auto
    then have "takeWhile (\<lambda>m. m \<noteq> a) (xs @ [x]) = takeWhile (\<lambda>m. m \<noteq> a) xs"
      by (intro takeWhile_append1[of a]) auto
    then show ?thesis using snoc.IH[OF fs snoc.prems(2)] by simp
  next
    case False
    then have fs: "first_seen xs @ [x] = A @ a # B"
      using snoc.prems(1) by (simp add: first_seen_snoc)
    from snoc.prems(2) have "B \<noteq> []" by auto
    then obtain B' z where B: "B = B' @ [z]" by (metis rev_exhaust)
    with fs have fs': "first_seen xs = A @ a # B'" and z: "z = x" by auto
    then have "a \<in> set xs" using set_first_seen[of xs] by auto
    then have tw: "takeWhile (\<lambda>m. m \<noteq> a) (xs @ [x]) = takeWhile (\<lambda>m. m \<noteq> a) xs"
      by (intro takeWhile_append1[of a]) auto
    show ?thesis
    proof (cases "b \<in> set B'")
      case True
      then show ?thesis using snoc.IH[OF fs' True] tw by simp
    next
      case False
      then have "b = x" using snoc.prems(2) B z by auto
      moreover have "x \<notin> set xs" using \<open>x \<notin> set (first_seen xs)\<close> set_first_seen[of xs] by simp
      ultimately have "b \<notin> set (takeWhile (\<lambda>m. m \<noteq> a) xs)"
        using set_takeWhileD by metis
      then show ?thesis using tw by simp
    qed
  qed
qed

lemma first_seen_fold:
  "fold (\<lambda>x ks. if x \<in> set ks then ks else ks @ [x]) xs (first_seen ys) = first_seen (ys @ xs)"
  by (simp add: first_seen_def)

lemma add_match_keys:
  "map fst (add_match qd row acc) =
     (if qd (fst (snd row)) = None then map fst acc
      else if fst row \<in> set (map fst acc) then map fst acc else map fst acc @ [fst row])"
proof (cases row)
  case (fields mid h dbt)
  then show ?thesis
    by (cases "qd h") (simp_all add: add_match_def dd_update_keys)
qed

lemma fold_add_match_keys:
  assumes "map fst acc = first_seen ys"
  shows "map fst (fold (add_match qd) rows acc) =
     first_seen (ys @ map fst (filter (\<lambda>row. qd (fst (snd row)) \<noteq> None) rows))"
  using assms
proof (induction rows arbitrary: acc ys)
  case Nil
  then show ?case by simp
next
  case (Cons row rows)
  show ?case
  proof (cases "qd (fst (snd row)) = None")
    case True
    then have "map fst (add_match qd row acc) = first_seen ys"
      using Cons.prems by (simp add: add_match_keys)
    from Cons.IH[OF this] True show ?thesis by simp
  next
    case False
    have "map fst (add_match qd row acc) =
            (if fst row \<in> set (map fst acc) then map fst acc else map fst acc @ [fst row])"
      unfolding add_match_keys using False by (simp only: if_False)
    then have "map fst (add_match qd row acc) = first_seen (ys @ [fst row])"
      unfolding Cons.prems first_seen_snoc by simp
    from Cons.IH[OF this] False show ?thesis by simp
  qed
qed

lemma media_matches_keys:
  "map fst (media_matches qf rows) =
     first_seen (map fst (filter (\<lambda>row. query_dict qf (fst (snd row)) \<noteq> None) rows))"
  using fold_add_match_keys[of "[]" "[]" "query_dict qf" rows]
  by (simp add: media_matches_def first_seen_def)

lemma query_dict_dom: "query_dict qf h \<noteq> None \<longleftrightarrow> h \<in> set (map fst qf)"
proof -
  have "query_dict qf h = None \<longleftrightarrow> h \<notin> fst ` set (rev qf)"
    unfolding query_dict_def by (rule map_of_eq_None_iff)
  then show ?thesis by simp
qed

lemma search_fingerprints_hash:
  "row \<in> set (search_fingerprints db hs) \<Longrightarrow> fst (snd row) \<in> set hs"
  by (auto simp: search_fingerprints_def)

lemma search_rows_in_query:
  "filter (\<lambda>row. query_dict qf (fst (snd row)) \<noteq> None) (search_fingerprints db (map fst qf)) =
     search_fingerprints db (map fst qf)"
proof (rule filter_True, rule ballI)
  fix row assume "row \<in> set (search_fingerprints db (map fst qf))"
  then have "fst (snd row) \<in> set (map fst qf)"
    by (rule search_fingerprints_hash)
  then show "query_dict qf (fst (snd row)) \<noteq> None"
    by (simp only: query_dict_dom)
qed

lemma py_max_sort_scores: "py_max score (sort_scores L) = py_max score L"
proof (cases "L = []")
  case True
  then show ?thesis by (simp add: sort_scores_def)
next
  case False
  let ?f = "\<lambda>s. - int (score s)"
  have ne: "sort_scores L \<noteq> []"
    using False by (metis sort_scores_def set_sort set_empty)
  obtain b where b: "py_max score L = Inr b" using py_max_nonempty[OF False] by blast
  obtain b' where b': "py_max score (sort_scores L) = Inr b'"
    using py_max_nonempty[OF ne] by blast
  have sets: "set (sort_scores L) = set L" by (simp add: sort_scores_def)
  have "score b' \<le> score b" using py_max_member[OF b] py_max_member(1)[OF b'] sets by blast
  moreover have "score b \<le> score b'"
    using py_max_member[OF b'] py_max_member(1)[OF b] sets by blast
  ultimately have eq: "score b' = score b" by simp
  from py_max_first[OF b] obtain pre post where d: "L = pre @ b # post"
      "\<forall>y \<in> set pre. score y < score b"
    by blast
  from py_max_first[OF b'] obtain pre' post' where d': "sort_scores L = pre' @ b' # post'"
      "\<forall>y \<in> set pre'. score y < score b'"
    by blast
  have "filter (\<lambda>y. score y = score b) pre = []"
    using d(2) by (auto simp: filter_empty_conv)
  then have f1: "filter (\<lambda>y. score y = score b) L = b # filter (\<lambda>y. score y = score b) post"
    unfolding d(1) by simp
  have "filter (\<lambda>y. score y = score b) pre' = []"
    using d'(2) eq by (auto simp: filter_empty_conv)
  then have f2: "filter (\<lambda>y. score y = score b) (sort_scores L) =
                   b' # filter (\<lambda>y. score y = score b) post'"
    unfolding d'(1) using eq by simp
  have "filter (\<lambda>y. ?f y = ?f b) (sort_key ?f L) = filter (\<lambda>y. ?f y = ?f b) L"
    by (rule sort_key_stable)
  then have "filter (\<lambda>y. score y = score b) (sort_scores L) =
               filter (\<lambda>y. score y = score b) L"
    by (simp add: sort_scores_def)
  with f1 f2 have "b' = b" by simp
  with b b' show ?thesis by simp
qed

lemma score_media_id:
  assumes "g \<in> set (media_matches qf rows)"
  shows "se_media_id (projr (score_media g)) = fst g"
proof -
  have "snd g \<noteq> []" using media_matches_values_nonempty assms by blast
  then obtain e where "score_media (fst g, snd g) = Inr e" "se_media_id e = fst g"
    using score_media_Inr by blast
  then show ?thesis by simp
qed

lemma unsorted_scores_media_ids:
  "map se_media_id (map (projr \<circ> score_media) (media_matches qf rows)) =
     map fst (media_matches qf rows)"
  by (simp add: score_media_id)

text \<open>
  Claim C5, amended. When another work reaches the same score as the returned one, the
  returned work is the one that occurs first among the rows returned by the search: the
  other work does not occur before the first row of the returned work. The returned
  score is the maximum over all works.
\<close>

theorem tie_goes_to_first_matching_row:
  assumes "snd (match_fingerprints cfg db qf min_confidence) = Inr (Some r)"
    and "score_matches qf (search_fingerprints db (map fst qf)) = Inr scores"
    and "s \<in> set scores" "score s = confidence r" "se_media_id s \<noteq> mr_media_id r"
  shows "se_media_id s \<notin>
           set (takeWhile (\<lambda>m. m \<noteq> mr_media_id r)
                  (map fst (search_fingerprints db (map fst qf)))) \<and>
         mr_media_id r \<in> set (map fst (search_fingerprints db (map fst qf))) \<and>
         (\<forall>s' \<in> set scores. score s' \<le> confidence r)"
proof -
  let ?rows = "search_fingerprints db (map fst qf)"
  let ?L = "map (projr \<circ> score_media) (media_matches qf ?rows)"
  have "\<exists>best. py_max score scores = Inr best \<and> mr_media_id r = se_media_id best \<and>
          confidence r = score best"
    using assms(1,2)
    by (auto simp: match_fingerprints_def Let_def split: if_splits sum.splits option.splits)
  then obtain best where best: "py_max score scores = Inr best"
      "mr_media_id r = se_media_id best" "confidence r = score best"
    by blast
  have scores: "scores = sort_scores ?L"
    using assms(2) by (simp add: score_matches_eq)
  then have bestL: "py_max score ?L = Inr best"
    using best(1) by (simp add: py_max_sort_scores)
  from py_max_first[OF bestL] obtain pre post where d: "?L = pre @ best # post"
      "\<forall>y \<in> set pre. score y < score best"
    by blast
  have "s \<in> set ?L" using assms(3) scores by (simp add: sort_scores_def)
  moreover have "s \<notin> set pre" using d(2) assms(4) best(3) by auto
  moreover have "s \<noteq> best" using assms(5) best(2) by auto
  ultimately have "s \<in> set post" unfolding d(1) by auto
  then have inpost: "se_media_id s \<in> set (map se_media_id post)" by simp
  have keys: "first_seen (map fst ?rows) =
                map se_media_id pre @ se_media_id best # map se_media_id post"
  proof -
    have "first_seen (map fst ?rows) = map fst (media_matches qf ?rows)"
      by (simp only: media_matches_keys search_rows_in_query)
    also have "\<dots> = map se_media_id ?L"
      by (simp only: unsorted_scores_media_ids)
    also have "\<dots> = map se_media_id pre @ se_media_id best # map se_media_id post"
      by (simp only: d(1) map_append list.map)
    finally show ?thesis .
  qed
  have "se_media_id s \<notin> set (takeWhile (\<lambda>m. m \<noteq> se_media_id best) (map fst ?rows))"
    by (rule first_seen_order[OF keys inpost])
  moreover have "se_media_id best \<in> set (map fst ?rows)"
  proof -
    have "se_media_id best \<in> set (first_seen (map fst ?rows))" unfolding keys by simp
    then show ?thesis by (simp only: set_first_seen)
  qed
  moreover have "\<forall>s' \<in> set scores. score s' \<le> score best"
    using py_max_member(2)[OF best(1)] .
  ultimately show ?thesis by (simp only: best(2,3)) blast
qed

lemma tied_catalogue_eval:
  "tied_catalogue =
     \<lparr>media = [\<lparr>row_id = 1, title = ''A'', media_type = ''movie'', season = None,
                episode = None, file_path = ''data/movies/a.mp3'', fingerprint_count = 5\<rparr>,
               \<lparr>row_id = 2, title = ''B'', media_type = ''movie'', season = None,
                episode = None, file_path = ''data/movies/b.mp3'', fingerprint_count = 5\<rparr>],
      fingerprints =
        [\<lparr>hash = ''a1'', time_offset = 100, media_id = 2\<rparr>,
         \<lparr>hash = ''a2'', time_offset = 110, media_id = 2\<rparr>,
         \<lparr>hash = ''a3'', time_offset = 120, media_id = 2\<rparr>,
         \<lparr>hash = ''a4'', time_offset = 130, media_id = 2\<rparr>,
         \<lparr>hash = ''a5'', time_offset = 140, media_id = 2\<rparr>,
         \<lparr>hash = ''b1'', time_offset = 200, media_id = 1\<rparr>,
         \<lparr>hash = ''b2'', time_offset = 210, media_id = 1\<rparr>,
         \<lparr>hash = ''b3'', time_offset = 220, media_id = 1\<rparr>,
         \<lparr>hash = ''b4'', time_offset = 230, media_id = 1\<rparr>,
         \<lparr>hash = ''b5'', time_offset = 240, media_id = 1\<rparr>],
      media_seq = 2\<rparr>"
  by (simp add: tied_catalogue_def add_media_def add_fingerprints_def create_tables_def)

lemma tied_rows:
  "search_fingerprints tied_catalogue (map fst tied_query) =
     [(2, ''a1'', 100), (2, ''a2'', 110), (2, ''a3'', 120), (2, ''a4'', 130), (2, ''a5'', 140),
      (1, ''b1'', 200), (1, ''b2'', 210), (1, ''b3'', 220), (1, ''b4'', 230), (1, ''b5'', 240)]"
  by (simp add: tied_catalogue_eval tied_query_def search_fingerprints_def)

lemma tied_scores:
  "score_matches tied_query
     [(2, ''a1'', 100), (2, ''a2'', 110), (2, ''a3'', 120), (2, ''a4'', 130), (2, ''a5'', 140),
      (1, ''b1'', 200), (1, ''b2'', 210), (1, ''b3'', 220), (1, ''b4'', 230), (1, ''b5'', 240)] =
     Inr [\<lparr>se_media_id = 2, score = 5, se_time_offset = 100, total_deltas = 5\<rparr>,
          \<lparr>se_media_id = 1, score = 5, se_time_offset = 200, total_deltas = 5\<rparr>]"
  unfolding tied_query_def by code_simp

lemma tied_match:
  "snd (match_fingerprints default_fingerprinter tied_catalogue tied_query 5) =
     Inr (Some tied_result)"
proof -
  have ne: "tied_query \<noteq> []" by (simp add: tied_query_def)
  have best: "py_max score
       [\<lparr>se_media_id = 2, score = 5, se_time_offset = 100, total_deltas = 5\<rparr>,
        \<lparr>se_media_id = 1, score = 5, se_time_offset = 200, total_deltas = 5\<rparr>] =
     Inr \<lparr>se_media_id = 2, score = 5, se_time_offset = 100, total_deltas = 5\<rparr>"
    by simp
  have info: "get_media_info tied_catalogue 2 =
     Some \<lparr>row_id = 2, title = ''B'', media_type = ''movie'', season = None,
           episode = None, file_path = ''data/movies/b.mp3'', fingerprint_count = 5\<rparr>"
    by (simp add: get_media_info_def tied_catalogue_eval)
  have cfg: "hop_length default_fingerprinter = 512" "sample_rate default_fingerprinter = 22050"
    by (simp_all add: default_fingerprinter_def AudioFingerprinter_def)
  show ?thesis
    using ne tied_scores best info
    by (simp add: match_fingerprints_def Let_def tied_rows tied_result_def cfg)
qed

text \<open>
  Claim C5 as stated fails: works 1 and 2 both score 5 and the match returns work 2.
\<close>

theorem tie_returns_higher_work_id:
  "score_matches tied_query (search_fingerprints tied_catalogue (map fst tied_query)) =
     Inr [\<lparr>se_media_id = 2, score = 5, se_time_offset = 100, total_deltas = 5\<rparr>,
          \<lparr>se_media_id = 1, score = 5, se_time_offset = 200, total_deltas = 5\<rparr>] \<and>
   snd (match_fingerprints default_fingerprinter tied_catalogue tied_query 5) =
     Inr (Some tied_result) \<and>
   mr_media_id tied_result = 2"
  using tied_scores tied_match by (simp add: tied_rows tied_result_def)

theorem tie_goes_to_first_matching_row_witness:
  "snd (match_fingerprints default_fingerprinter tied_catalogue tied_query 5) =
     Inr (Some tied_result) \<and>
   map fst (search_fingerprints tied_catalogue (map fst tied_query)) =
     [2, 2, 2, 2, 2, 1, 1, 1, 1, 1] \<and>
   1 \<notin> set (takeWhile (\<lambda>m. m \<noteq> mr_media_id tied_result)
                (map fst (search_fingerprints tied_catalogue (map fst tied_query)))) \<and>
   mr_media_id tied_result \<in> set (map fst (search_fingerprints tied_catalogue (map fst tied_query)))"
proof -
  let ?s = "\<lparr>se_media_id = 1, score = 5, se_time_offset = 200, total_deltas = 5\<rparr>"
  let ?scores = "[\<lparr>se_media_id = 2, score = 5, se_time_offset = 100, total_deltas = 5\<rparr>, ?s]"
  have h2: "score_matches tied_query (search_fingerprints tied_catalogue (map fst tied_query)) =
              Inr ?scores"
    using tied_scores by (simp add: tied_rows)
  have h3: "?s \<in> set ?scores" by simp
  have h4: "score ?s = confidence tied_result" by (simp add: tied_result_def)
  have h5: "se_media_id ?s \<noteq> mr_media_id tied_result" by (simp add: tied_result_def)
  have rows: "map fst (search_fingerprints tied_catalogue (map fst tied_query)) =
                [2, 2, 2, 2, 2, 1, 1, 1, 1, 1]"
    by (simp add: tied_rows)
  show ?thesis
    using tie_goes_to_first_matching_row[OF tied_match h2 h3 h4 h5] tied_match rows
    by simp
qed

end
